theory Spec2Isabelle
  imports Main
begin

section \<open>The parsed document (golang.org/x/net/html)\<close>

text \<open>
  The backend is the Go program \<^verbatim>\<open>backend/main.go\<close>. A parsed page is a tree of
  \<^verbatim>\<open>html.Node\<close>: a node type, a \<^verbatim>\<open>Data\<close> string (tag name, text, doctype name), a
  slice of attributes, and the children reached by \<^verbatim>\<open>FirstChild\<close>/\<^verbatim>\<open>NextSibling\<close>,
  here the list \<open>Children\<close>. An attribute slice may hold the same key several times.
\<close>

datatype NodeType =
  ErrorNode | TextNode | DocumentNode | ElementNode | CommentNode | DoctypeNode | RawNode

record Attribute =
  Namespace :: string
  Key :: string
  Val :: string

datatype Node =
  Node (Type: NodeType) (Data: string) (Attr: "Attribute list") (Children: "Node list")

section \<open>The result record\<close>

text \<open>
  \<^verbatim>\<open>type Analysis struct\<close>. The counters are Go \<^verbatim>\<open>int\<close> (64 bit); a counter is
  incremented once per node or attribute of a tree held in memory, so it stays far
  below \<open>2 ^ 63\<close> and is modelled by \<open>nat\<close>.
\<close>

record Analysis =
  ID :: int
  URL :: string
  HTMLVersion :: string
  Title :: string
  H1Count :: nat
  H2Count :: nat
  H3Count :: nat
  H4Count :: nat
  H5Count :: nat
  H6Count :: nat
  InternalLinks :: nat
  ExternalLinks :: nat
  InaccessibleLinks :: nat
  BrokenLinks :: "string list"
  HasLoginForm :: bool
  Status :: string

text \<open>\<^verbatim>\<open>&Analysis{URL: urlStr}\<close>: every other field has Go's zero value.\<close>

definition new_Analysis :: "string \<Rightarrow> Analysis" where
  "new_Analysis urlStr =
     \<lparr>ID = 0, URL = urlStr, HTMLVersion = [], Title = [],
      H1Count = 0, H2Count = 0, H3Count = 0, H4Count = 0, H5Count = 0, H6Count = 0,
      InternalLinks = 0, ExternalLinks = 0, InaccessibleLinks = 0, BrokenLinks = [],
      HasLoginForm = False, Status = []\<rparr>"

section \<open>The string functions used (package strings)\<close>

text \<open>Strings are byte sequences, as in Go; all three functions work on bytes.\<close>

definition HasPrefix :: "string \<Rightarrow> string \<Rightarrow> bool" where
  "HasPrefix s pre = (length pre \<le> length s \<and> take (length pre) s = pre)"

fun Contains :: "string \<Rightarrow> string \<Rightarrow> bool" where
  "Contains [] substr = (substr = [])"
| "Contains (c # s) substr = (HasPrefix (c # s) substr \<or> Contains s substr)"

text \<open>
  \<^verbatim>\<open>strings.ToLower\<close> on the ASCII letters. Go also maps letters beyond ASCII; the
  only ones it maps into ASCII are the Kelvin sign (to k) and the dotted capital I (to i),
  and neither letter occurs in a pattern the program searches for.
\<close>

definition lower_byte :: "char \<Rightarrow> char" where
  "lower_byte c =
     (if 65 \<le> (of_char c :: nat) \<and> (of_char c :: nat) \<le> 90
      then char_of (of_char c + (32 :: nat)) else c)"

definition ToLower :: "string \<Rightarrow> string" where
  "ToLower s = map lower_byte s"

section \<open>The document walk of analyzeURL\<close>

text \<open>Case \<^verbatim>\<open>"a"\<close>: the loop over the attributes, one increment per \<^verbatim>\<open>href\<close> key.\<close>

fun count_links :: "Attribute list \<Rightarrow> Analysis \<Rightarrow> Analysis" where
  "count_links [] an = an"
| "count_links (attr # rest) an =
     count_links rest
       (if Key attr = ''href'' then
          (if HasPrefix (Val attr) ''http''
           then an\<lparr>ExternalLinks := ExternalLinks an + 1\<rparr>
           else an\<lparr>InternalLinks := InternalLinks an + 1\<rparr>)
        else an)"

text \<open>Case \<^verbatim>\<open>"form"\<close>, first loop: it leaves at the first matching \<^verbatim>\<open>action\<close>.\<close>

fun form_action :: "Attribute list \<Rightarrow> Analysis \<Rightarrow> Analysis" where
  "form_action [] an = an"
| "form_action (attr # rest) an =
     (if Key attr = ''action''
         \<and> (Contains (Val attr) ''login'' \<or> Contains (Val attr) ''signin'')
      then an\<lparr>HasLoginForm := True\<rparr>
      else form_action rest an)"

text \<open>
  The closure \<^verbatim>\<open>checkForPassword\<close>. Its attribute loop returns from the closure at
  the first \<^verbatim>\<open>type="password"\<close>, so the children of that node are not visited; the
  loops of the callers go on.
\<close>

fun password_type :: "Attribute list \<Rightarrow> bool" where
  "password_type [] = False"
| "password_type (attr # rest) =
     (if Key attr = ''type'' \<and> Val attr = ''password'' then True else password_type rest)"

fun checkForPassword :: "Node \<Rightarrow> Analysis \<Rightarrow> Analysis"
  and checkForPassword_children :: "Node list \<Rightarrow> Analysis \<Rightarrow> Analysis" where
  "checkForPassword (Node t d at cs) an =
     (if t = ElementNode \<and> d = ''input'' \<and> password_type at
      then an\<lparr>HasLoginForm := True\<rparr>
      else checkForPassword_children cs an)"
| "checkForPassword_children [] an = an"
| "checkForPassword_children (c # cs) an =
     checkForPassword_children cs (checkForPassword c an)"

text \<open>The \<^verbatim>\<open>switch n.Data\<close> of the closure \<^verbatim>\<open>f\<close>, for one node.\<close>

definition analyzeURL_f_switch :: "Node \<Rightarrow> Analysis \<Rightarrow> Analysis" where
  "analyzeURL_f_switch n an =
     (if Type n = ElementNode then
        (if Data n = ''title'' then
           (case Children n of [] \<Rightarrow> an | c # _ \<Rightarrow> an\<lparr>Title := Data c\<rparr>)
         else if Data n = ''h1'' then an\<lparr>H1Count := H1Count an + 1\<rparr>
         else if Data n = ''h2'' then an\<lparr>H2Count := H2Count an + 1\<rparr>
         else if Data n = ''h3'' then an\<lparr>H3Count := H3Count an + 1\<rparr>
         else if Data n = ''h4'' then an\<lparr>H4Count := H4Count an + 1\<rparr>
         else if Data n = ''h5'' then an\<lparr>H5Count := H5Count an + 1\<rparr>
         else if Data n = ''h6'' then an\<lparr>H6Count := H6Count an + 1\<rparr>
         else if Data n = ''a'' then count_links (Attr n) an
         else if Data n = ''form'' then
           (let an' = form_action (Attr n) an
            in if \<not> HasLoginForm an' then checkForPassword n an' else an')
         else an)
      else an)"

text \<open>The closure \<^verbatim>\<open>f\<close>: the node itself, then its children from left to right.\<close>

fun analyzeURL_f :: "Node \<Rightarrow> Analysis \<Rightarrow> Analysis"
  and analyzeURL_f_children :: "Node list \<Rightarrow> Analysis \<Rightarrow> Analysis" where
  "analyzeURL_f (Node t d at cs) an =
     analyzeURL_f_children cs (analyzeURL_f_switch (Node t d at cs) an)"
| "analyzeURL_f_children [] an = an"
| "analyzeURL_f_children (c # cs) an = analyzeURL_f_children cs (analyzeURL_f c an)"

section \<open>getHTMLVersion\<close>

text \<open>
  The closure \<^verbatim>\<open>f\<close> of \<^verbatim>\<open>getHTMLVersion\<close> writes the variable \<^verbatim>\<open>version\<close>. At a
  doctype node it assigns and returns from that call, so the children of a doctype node
  are not visited; the loop of the calling invocation goes on with the next sibling.
\<close>

fun getHTMLVersion_f :: "Node \<Rightarrow> string \<Rightarrow> string"
  and getHTMLVersion_f_children :: "Node list \<Rightarrow> string \<Rightarrow> string" where
  "getHTMLVersion_f (Node t d at cs) version =
     (if t = DoctypeNode then d else getHTMLVersion_f_children cs version)"
| "getHTMLVersion_f_children [] version = version"
| "getHTMLVersion_f_children (c # cs) version =
     getHTMLVersion_f_children cs (getHTMLVersion_f c version)"

definition getHTMLVersion :: "Node \<Rightarrow> string" where
  "getHTMLVersion doc =
     (let version = getHTMLVersion_f doc [] in
      if Contains (ToLower version) ''html 5'' \<or> version = ''html'' then ''HTML5''
      else if Contains (ToLower version) ''xhtml 1.1'' then ''XHTML 1.1''
      else if Contains (ToLower version) ''xhtml 1.0'' then ''XHTML 1.0''
      else if Contains (ToLower version) ''html 4.01'' then ''HTML 4.01''
      else if Contains (ToLower version) ''html 4.0'' then ''HTML 4.0''
      else ''HTML5'')"

section \<open>The libraries the analyzer calls\<close>

text \<open>
  \<^verbatim>\<open>net/url\<close>, \<^verbatim>\<open>net/http\<close> and \<^verbatim>\<open>html.Parse\<close> are not part of the program; they are
  parameters of the model. A Go \<^verbatim>\<open>error\<close> is a value carrying its message. The network
  is an oracle: what a GET returns may depend on the client's timeout (seconds), on every
  request issued before, and on the URL. The state of the world is the list of the URLs
  requested so far, oldest first; every GET appends one entry.
\<close>

datatype error = Error string

record Response =
  StatusCode :: int
  Body :: string

type_synonym world = "string list"

record 'u env =
  url_Parse :: "string \<Rightarrow> error + 'u"
  ResolveReference :: "'u \<Rightarrow> 'u \<Rightarrow> 'u"
  url_String :: "'u \<Rightarrow> string"
  html_Parse :: "string \<Rightarrow> error + Node"
  transport :: "nat \<Rightarrow> world \<Rightarrow> string \<Rightarrow> error + Response"

definition client_Get ::
  "'u env \<Rightarrow> nat \<Rightarrow> world \<Rightarrow> string \<Rightarrow> (error + Response) \<times> world" where
  "client_Get env timeout w u = (transport env timeout w u, w @ [u])"

section \<open>checkInaccessibleLinks\<close>

text \<open>
  The state of the closure is the slice \<^verbatim>\<open>links\<close> and the world. The attribute loop
  of an anchor: \<^verbatim>\<open>continue\<close> when the value or the base does not parse, else one GET of
  the resolved link with the 10 second client.
\<close>

fun checkInaccessibleLinks_attrs ::
  "'u env \<Rightarrow> string \<Rightarrow> Attribute list \<Rightarrow> string list \<times> world \<Rightarrow> string list \<times> world" where
  "checkInaccessibleLinks_attrs env baseURL [] st = st"
| "checkInaccessibleLinks_attrs env baseURL (attr # rest) (links, w) =
     (if Key attr = ''href'' then
        (case url_Parse env (Val attr) of
           Inl err \<Rightarrow> checkInaccessibleLinks_attrs env baseURL rest (links, w)
         | Inr link \<Rightarrow>
             (case url_Parse env baseURL of
                Inl err \<Rightarrow> checkInaccessibleLinks_attrs env baseURL rest (links, w)
              | Inr base \<Rightarrow>
                  (let resolvedLink = ResolveReference env base link;
                       (r, w') = client_Get env 10 w (url_String env resolvedLink)
                   in checkInaccessibleLinks_attrs env baseURL rest
                        ((case r of
                            Inl err \<Rightarrow> links @ [url_String env resolvedLink]
                          | Inr resp \<Rightarrow>
                              if 400 \<le> StatusCode resp \<and> StatusCode resp \<le> 599
                              then links @ [url_String env resolvedLink] else links),
                         w'))))
      else checkInaccessibleLinks_attrs env baseURL rest (links, w))"

fun checkInaccessibleLinks_f ::
  "'u env \<Rightarrow> string \<Rightarrow> Node \<Rightarrow> string list \<times> world \<Rightarrow> string list \<times> world"
  and checkInaccessibleLinks_f_children ::
  "'u env \<Rightarrow> string \<Rightarrow> Node list \<Rightarrow> string list \<times> world \<Rightarrow> string list \<times> world" where
  "checkInaccessibleLinks_f env baseURL (Node t d at cs) st =
     checkInaccessibleLinks_f_children env baseURL cs
       (if t = ElementNode \<and> d = ''a''
        then checkInaccessibleLinks_attrs env baseURL at st else st)"
| "checkInaccessibleLinks_f_children env baseURL [] st = st"
| "checkInaccessibleLinks_f_children env baseURL (c # cs) st =
     checkInaccessibleLinks_f_children env baseURL cs
       (checkInaccessibleLinks_f env baseURL c st)"

definition checkInaccessibleLinks ::
  "'u env \<Rightarrow> Node \<Rightarrow> string \<Rightarrow> world \<Rightarrow> string list \<times> world" where
  "checkInaccessibleLinks env doc baseURL w = checkInaccessibleLinks_f env baseURL doc ([], w)"

section \<open>analyzeURL\<close>

text \<open>
  One GET of the page with the 30 second client, \<^verbatim>\<open>html.Parse\<close> of the body, the walk,
  the version, the link check. Either library error is returned as it is.
\<close>

definition analyzeURL :: "'u env \<Rightarrow> string \<Rightarrow> world \<Rightarrow> (error + Analysis) \<times> world" where
  "analyzeURL env urlStr w =
     (case client_Get env 30 w urlStr of
        (Inl err, w1) \<Rightarrow> (Inl err, w1)
      | (Inr resp, w1) \<Rightarrow>
          (case html_Parse env (Body resp) of
             Inl err \<Rightarrow> (Inl err, w1)
           | Inr doc \<Rightarrow>
               (let analysis = analyzeURL_f doc (new_Analysis urlStr);
                    analysis = analysis\<lparr>HTMLVersion := getHTMLVersion doc\<rparr>;
                    (links, w2) = checkInaccessibleLinks env doc (URL analysis) w1;
                    analysis = analysis\<lparr>BrokenLinks := links\<rparr>;
                    analysis = analysis\<lparr>InaccessibleLinks := length (BrokenLinks analysis)\<rparr>
                in (Inr analysis, w2))))"

section \<open>The job store\<close>

text \<open>
  The two tables of \<^verbatim>\<open>schema.sql\<close>, each a list of rows in insertion order. The column
  \<^verbatim>\<open>created_at\<close> of \<^verbatim>\<open>analyses\<close> and the key \<^verbatim>\<open>id\<close> of \<^verbatim>\<open>broken_links\<close> are left
  out: no statement of the worker reads or writes them. Columns without
  \<^verbatim>\<open>NOT NULL\<close> that the worker writes as a whole are options.
\<close>

record analysis_row =
  row_id :: int
  row_url :: string
  html_version :: "string option"
  title :: "string option"
  h1_count :: nat
  h2_count :: nat
  h3_count :: nat
  h4_count :: nat
  h5_count :: nat
  h6_count :: nat
  internal_links :: nat
  external_links :: nat
  inaccessible_links :: nat
  has_login_form :: "bool option"
  status :: string

record broken_link_row =
  analysis_id :: int
  link :: string

record db =
  analyses :: "analysis_row list"
  broken_links :: "broken_link_row list"

text \<open>\<^verbatim>\<open>UPDATE analyses SET status = ? WHERE id = ?\<close>\<close>

definition update_status :: "string \<Rightarrow> int \<Rightarrow> db \<Rightarrow> db" where
  "update_status st i d =
     d\<lparr>analyses := map (\<lambda>r. if row_id r = i then r\<lparr>status := st\<rparr> else r) (analyses d)\<rparr>"

text \<open>\<^verbatim>\<open>SELECT id, url FROM analyses WHERE status = 'queued'\<close>\<close>

definition select_queued :: "db \<Rightarrow> (int \<times> string) list" where
  "select_queued d =
     map (\<lambda>r. (row_id r, row_url r)) (filter (\<lambda>r. status r = ''queued'') (analyses d))"

text \<open>\<^verbatim>\<open>SELECT status FROM analyses WHERE id = ?\<close>, read with \<^verbatim>\<open>QueryRow\<close>: the first row.\<close>

definition select_status :: "int \<Rightarrow> db \<Rightarrow> string option" where
  "select_status i d =
     (case filter (\<lambda>r. row_id r = i) (analyses d) of [] \<Rightarrow> None | r # _ \<Rightarrow> Some (status r))"

text \<open>The \<^verbatim>\<open>UPDATE\<close> of the transaction: every result column and \<^verbatim>\<open>status = 'done'\<close>.\<close>

definition update_result :: "Analysis \<Rightarrow> int \<Rightarrow> db \<Rightarrow> db" where
  "update_result analysis i d =
     d\<lparr>analyses :=
         map (\<lambda>r. if row_id r = i then
                     r\<lparr>html_version := Some (HTMLVersion analysis),
                       title := Some (Title analysis),
                       h1_count := H1Count analysis, h2_count := H2Count analysis,
                       h3_count := H3Count analysis, h4_count := H4Count analysis,
                       h5_count := H5Count analysis, h6_count := H6Count analysis,
                       internal_links := InternalLinks analysis,
                       external_links := ExternalLinks analysis,
                       inaccessible_links := InaccessibleLinks analysis,
                       has_login_form := Some (HasLoginForm analysis),
                       status := ''done''\<rparr>
                   else r)
           (analyses d)\<rparr>"

text \<open>
  \<^verbatim>\<open>INSERT INTO broken_links (analysis_id, link) VALUES (?, ?)\<close>. The foreign key makes
  the statement fail when \<^verbatim>\<open>analyses\<close> has no row with that id.
\<close>

definition insert_broken_link :: "int \<Rightarrow> string \<Rightarrow> db \<Rightarrow> db option" where
  "insert_broken_link i l d =
     (if list_ex (\<lambda>r. row_id r = i) (analyses d)
      then Some (d\<lparr>broken_links := broken_links d @ [\<lparr>analysis_id = i, link = l\<rparr>]\<rparr>)
      else None)"

text \<open>\<^verbatim>\<open>SELECT link FROM broken_links WHERE analysis_id = ?\<close> of \<^verbatim>\<open>getAnalysesHandler\<close>.\<close>

definition select_broken_links :: "int \<Rightarrow> db \<Rightarrow> string list" where
  "select_broken_links i d = map link (filter (\<lambda>b. analysis_id b = i) (broken_links d))"

section \<open>The handlers that change a job's state\<close>

text \<open>
  The argument is the id bound from the request body (\<open>None\<close> when \<^verbatim>\<open>BindJSON\<close> fails)
  and whether the statement fails; the result is the HTTP status and the store.
\<close>

definition rerunHandler :: "int option \<Rightarrow> bool \<Rightarrow> db \<Rightarrow> int \<times> db" where
  "rerunHandler body db_err d =
     (case body of
        None \<Rightarrow> (400, d)
      | Some i \<Rightarrow> if db_err then (500, d) else (200, update_status ''queued'' i d))"

definition stopAnalysisHandler :: "int option \<Rightarrow> bool \<Rightarrow> db \<Rightarrow> int \<times> db" where
  "stopAnalysisHandler body db_err d =
     (case body of
        None \<Rightarrow> (400, d)
      | Some i \<Rightarrow> if db_err then (500, d) else (200, update_status ''stopped'' i d))"

section \<open>The worker\<close>

text \<open>
  Which statements of one execution of \<^verbatim>\<open>processAnalysis\<close> return an error, in the
  order of the source; \<open>fail_insert k\<close> is the insert of the \<open>k\<close>-th broken link.
\<close>

record faults =
  fail_running :: bool
  fail_select :: bool
  fail_error :: bool
  fail_begin :: bool
  fail_update :: bool
  fail_insert :: "nat \<Rightarrow> bool"
  fail_commit :: bool

text \<open>
  One iteration of the loop of \<^verbatim>\<open>startWorker\<close>: the jobs it starts an execution for.
  A failed query starts none. (\<^verbatim>\<open>rows.Scan\<close> reads an \<^verbatim>\<open>INT\<close> and a
  \<^verbatim>\<open>VARCHAR NOT NULL\<close> column into an \<^verbatim>\<open>int\<close> and a \<^verbatim>\<open>string\<close>; its error branch
  is not taken.) The executions run as goroutines; the statements of several of them, and
  of the handlers, interleave.
\<close>

definition startWorker_poll :: "bool \<Rightarrow> db \<Rightarrow> (int \<times> string) list" where
  "startWorker_poll query_err d = (if query_err then [] else select_queued d)"

text \<open>
  The inserts of the transaction, on the transaction's copy of the store; \<open>None\<close> when one
  fails (the code then rolls back and returns).
\<close>

fun tx_insert_links :: "(nat \<Rightarrow> bool) \<Rightarrow> int \<Rightarrow> nat \<Rightarrow> string list \<Rightarrow> db \<Rightarrow> db option" where
  "tx_insert_links fl i k [] t = Some t"
| "tx_insert_links fl i k (l # ls) t =
     (if fl k then None
      else (case insert_broken_link i l t of
              None \<Rightarrow> None
            | Some t' \<Rightarrow> tx_insert_links fl i (Suc k) ls t'))"

text \<open>
  \<^verbatim>\<open>processAnalysis\<close> in two parts, so that a request of another goroutine can be placed
  between them: the first statement (\<open>False\<close>: it failed and the execution returns), and
  everything from the \<^verbatim>\<open>SELECT status\<close> on. An error of that \<^verbatim>\<open>SELECT\<close> is not looked
  at and leaves \<^verbatim>\<open>status\<close> empty. A transaction works on a copy of the store, which
  \<^verbatim>\<open>Commit\<close> installs; \<^verbatim>\<open>Rollback\<close> and a failed \<^verbatim>\<open>Commit\<close> drop it.
\<close>

definition processAnalysis_begin :: "faults \<Rightarrow> int \<Rightarrow> db \<Rightarrow> bool \<times> db" where
  "processAnalysis_begin flt i d =
     (if fail_running flt then (False, d) else (True, update_status ''running'' i d))"

definition processAnalysis_rest ::
  "'u env \<Rightarrow> faults \<Rightarrow> int \<Rightarrow> string \<Rightarrow> db \<times> world \<Rightarrow> db \<times> world" where
  "processAnalysis_rest env flt i url st =
     (case st of (d, w) \<Rightarrow>
        (let status = (if fail_select flt then []
                       else (case select_status i d of None \<Rightarrow> [] | Some s \<Rightarrow> s))
         in if status = ''stopped'' then (d, w)
            else
              (case analyzeURL env url w of
                 (Inl err, w') \<Rightarrow>
                   (if fail_error flt then (d, w') else (update_status ''error'' i d, w'))
               | (Inr analysis, w') \<Rightarrow>
                   (if fail_begin flt then (d, w')
                    else if fail_update flt then (d, w')
                    else
                      (case tx_insert_links (fail_insert flt) i 0 (BrokenLinks analysis)
                              (update_result analysis i d) of
                         None \<Rightarrow> (d, w')
                       | Some t \<Rightarrow> if fail_commit flt then (d, w') else (t, w'))))))"

definition processAnalysis ::
  "'u env \<Rightarrow> faults \<Rightarrow> int \<Rightarrow> string \<Rightarrow> db \<times> world \<Rightarrow> db \<times> world" where
  "processAnalysis env flt i url st =
     (case st of (d, w) \<Rightarrow>
        (case processAnalysis_begin flt i d of
           (False, d') \<Rightarrow> (d', w)
         | (True, d') \<Rightarrow> processAnalysis_rest env flt i url (d', w)))"

section \<open>Reading a tree in document order\<close>

text \<open>
  The nodes of a tree in pre-order, and what the properties below count in it: the
  anchors, the \<^verbatim>\<open>href\<close> values of a node in attribute order, and the \<^verbatim>\<open>href\<close> values
  of all anchors in document order.
\<close>

fun subnodes :: "Node \<Rightarrow> Node list" where
  "subnodes (Node t d at cs) = Node t d at cs # concat (map subnodes cs)"

definition is_anchor :: "Node \<Rightarrow> bool" where
  "is_anchor n = (Type n = ElementNode \<and> Data n = ''a'')"

definition href_values :: "Node \<Rightarrow> string list" where
  "href_values n = map Val (filter (\<lambda>attr. Key attr = ''href'') (Attr n))"

definition anchor_hrefs :: "Node \<Rightarrow> string list" where
  "anchor_hrefs n = concat (map href_values (filter is_anchor (subnodes n)))"

definition anchors_with_href :: "Node \<Rightarrow> Node list" where
  "anchors_with_href n = filter (\<lambda>m. is_anchor m \<and> href_values m \<noteq> []) (subnodes n)"

definition is_form :: "Node \<Rightarrow> bool" where
  "is_form n = (Type n = ElementNode \<and> Data n = ''form'')"

definition action_matches :: "Node \<Rightarrow> bool" where
  "action_matches n =
     list_ex (\<lambda>attr. Key attr = ''action''
                \<and> (Contains (Val attr) ''login'' \<or> Contains (Val attr) ''signin''))
       (Attr n)"

definition is_password_input :: "Node \<Rightarrow> bool" where
  "is_password_input n =
     (Type n = ElementNode \<and> Data n = ''input'' \<and> password_type (Attr n))"

text \<open>The \<^verbatim>\<open>Data\<close> of the first child of every \<^verbatim>\<open>title\<close> element that has a child.\<close>

definition title_texts :: "Node \<Rightarrow> string list" where
  "title_texts n =
     concat (map (\<lambda>m. case Children m of [] \<Rightarrow> [] | c # _ \<Rightarrow> [Data c])
               (filter (\<lambda>m. Type m = ElementNode \<and> Data m = ''title'') (subnodes n)))"

text \<open>The doctype nodes in pre-order, and those that do not lie below another one.\<close>

definition all_doctypes :: "Node \<Rightarrow> string list" where
  "all_doctypes n = map Data (filter (\<lambda>m. Type m = DoctypeNode) (subnodes n))"

fun doctypes :: "Node \<Rightarrow> string list" where
  "doctypes (Node t d at cs) = (if t = DoctypeNode then [d] else concat (map doctypes cs))"

text \<open>
  The class of a doctype value in the words of the specification, in its priority order:
  \<^verbatim>\<open>html 5\<close> anywhere, whatever the case of the letters, or the exact text \<^verbatim>\<open>html\<close>;
  then \<^verbatim>\<open>xhtml 1.1\<close>, \<^verbatim>\<open>xhtml 1.0\<close>, \<^verbatim>\<open>html 4.01\<close>, \<^verbatim>\<open>html 4.0\<close>. A value with
  none of them has the default class.
\<close>

definition version_of_doctype :: "string \<Rightarrow> string" where
  "version_of_doctype v =
     (if Contains (ToLower v) ''html 5'' \<or> v = ''html'' then ''HTML5''
      else if Contains (ToLower v) ''xhtml 1.1'' then ''XHTML 1.1''
      else if Contains (ToLower v) ''xhtml 1.0'' then ''XHTML 1.0''
      else if Contains (ToLower v) ''html 4.01'' then ''HTML 4.01''
      else if Contains (ToLower v) ''html 4.0'' then ''HTML 4.0''
      else ''HTML5'')"

text \<open>
  What the link check is specified to do, in the specification's words: a link is broken
  when the request fails or the status is in 400..599; the resolved URL of every
  \<^verbatim>\<open>href\<close> that parses, in document order.
\<close>

definition is_broken :: "error + Response \<Rightarrow> bool" where
  "is_broken r =
     (case r of Inl err \<Rightarrow> True
      | Inr resp \<Rightarrow> 400 \<le> StatusCode resp \<and> StatusCode resp \<le> 599)"

definition resolved_hrefs :: "'u env \<Rightarrow> 'u \<Rightarrow> string list \<Rightarrow> string list" where
  "resolved_hrefs env base hs =
     concat (map (\<lambda>h. case url_Parse env h of
                         Inl err \<Rightarrow> []
                       | Inr l \<Rightarrow> [url_String env (ResolveReference env base l)]) hs)"

definition probe_step :: "'u env \<Rightarrow> string \<Rightarrow> string list \<times> world \<Rightarrow> string list \<times> world" where
  "probe_step env u st =
     (case st of (links, w) \<Rightarrow>
        (if is_broken (transport env 10 w u) then links @ [u] else links, w @ [u]))"

text \<open>The store after a commit of \<open>analysis\<close> for job \<open>i\<close> that went through.\<close>

definition committed :: "Analysis \<Rightarrow> int \<Rightarrow> db \<Rightarrow> db" where
  "committed analysis i d =
     (update_result analysis i d)
       \<lparr>broken_links :=
          broken_links d @ map (\<lambda>l. \<lparr>analysis_id = i, link = l\<rparr>) (BrokenLinks analysis)\<rparr>"

text \<open>
  Whether job \<open>i\<close> has a row, and when the commit of \<open>analysis\<close> for job \<open>i\<close> does
  not go through: \<^verbatim>\<open>Begin\<close>, the \<^verbatim>\<open>UPDATE\<close>, one of the inserts or \<^verbatim>\<open>Commit\<close>
  returns an error, or an insert violates the foreign key.
\<close>

definition job_exists :: "int \<Rightarrow> db \<Rightarrow> bool" where
  "job_exists i d = list_ex (\<lambda>r. row_id r = i) (analyses d)"

definition commit_fails :: "faults \<Rightarrow> int \<Rightarrow> Analysis \<Rightarrow> db \<Rightarrow> bool" where
  "commit_fails flt i analysis d =
     (fail_begin flt \<or> fail_update flt
      \<or> list_ex (fail_insert flt) [0..<length (BrokenLinks analysis)]
      \<or> (BrokenLinks analysis \<noteq> [] \<and> \<not> job_exists i d)
      \<or> fail_commit flt)"

text \<open>The id, URL and status of a row.\<close>

definition row_key :: "analysis_row \<Rightarrow> int \<times> string \<times> string" where
  "row_key r = (row_id r, row_url r, status r)"

section \<open>Example documents, networks and stores\<close>

definition attr :: "string \<Rightarrow> string \<Rightarrow> Attribute" where
  "attr k v = \<lparr>Namespace = [], Key = k, Val = v\<rparr>"

definition elem :: "string \<Rightarrow> Attribute list \<Rightarrow> Node list \<Rightarrow> Node" where
  "elem name ats cs = Node ElementNode name ats cs"

definition text_node :: "string \<Rightarrow> Node" where
  "text_node s = Node TextNode s [] []"

definition document :: "Node list \<Rightarrow> Node" where
  "document cs = Node DocumentNode [] [] cs"

text \<open>
  A small instance of the libraries: a URL is its string, a reference with the escape
  \<^verbatim>\<open>%zz\<close> does not parse, an absolute reference wins and a relative one is appended to
  the base; every body parses, to the tree \<open>parse\<close> gives.
\<close>

definition ex_env ::
  "(string \<Rightarrow> Node) \<Rightarrow> (world \<Rightarrow> string \<Rightarrow> error + Response) \<Rightarrow> string env" where
  "ex_env parse net =
     \<lparr>url_Parse = (\<lambda>s. if Contains s ''%zz'' then Inl (Error ''invalid URL escape'')
                        else Inr s),
      ResolveReference = (\<lambda>base l. if HasPrefix l ''http'' then l else base @ l),
      url_String = (\<lambda>u. u),
      html_Parse = (\<lambda>body. Inr (parse body)),
      transport = (\<lambda>timeout. net)\<rparr>"

text \<open>A network where \<^verbatim>\<open>/dead\<close> answers 404, \<^verbatim>\<open>/down\<close> does not answer, the rest 200.\<close>

definition ex_net :: "world \<Rightarrow> string \<Rightarrow> error + Response" where
  "ex_net w u =
     (if u = ''h/dead'' then Inr \<lparr>StatusCode = 404, Body = []\<rparr>
      else if u = ''h/down'' then Inl (Error ''timeout'')
      else Inr \<lparr>StatusCode = 200, Body = []\<rparr>)"

definition ex_two_hrefs :: Node where
  "ex_two_hrefs = document [elem ''a'' [attr ''href'' ''/x'', attr ''href'' ''http://y''] []]"

definition ex_titles :: Node where
  "ex_titles =
     document [elem ''title'' [] [text_node ''A''], elem ''title'' [] [text_node ''B'']]"

definition ex_password :: Node where
  "ex_password =
     document [elem ''input'' [attr ''type'' ''password''] [],
               elem ''form'' [attr ''action'' ''/q''] [elem ''input'' [attr ''type'' ''text''] []]]"

definition ex_one_doctype :: Node where
  "ex_one_doctype =
     document [Node DoctypeNode ''html 4.01'' [] [], elem ''html'' [] [elem ''body'' [] []]]"

definition ex_doctypes :: Node where
  "ex_doctypes =
     document [Node DoctypeNode ''html 4.01'' [] [], Node DoctypeNode ''xhtml 1.0'' [] []]"

definition ex_links :: Node where
  "ex_links =
     document [elem ''a'' [attr ''href'' ''/dead''] [],
               elem ''a'' [attr ''href'' ''%zz''] [],
               elem ''a'' [attr ''href'' ''/ok''] [],
               elem ''a'' [attr ''name'' ''top''] [],
               elem ''a'' [attr ''href'' ''/down''] [],
               elem ''a'' [attr ''href'' ''/dead''] []]"

text \<open>
  A page that changes between two fetches: the first body has one dead link, the body of
  every later fetch another one.
\<close>

definition ex_net2 :: "world \<Rightarrow> string \<Rightarrow> error + Response" where
  "ex_net2 w u =
     (if u = ''h'' then Inr \<lparr>StatusCode = 200, Body = (if w = [] then ''1'' else ''2'')\<rparr>
      else Inr \<lparr>StatusCode = 404, Body = []\<rparr>)"

definition ex_parse2 :: "string \<Rightarrow> Node" where
  "ex_parse2 body =
     (if body = ''1'' then document [elem ''a'' [attr ''href'' ''/d1''] []]
      else document [elem ''a'' [attr ''href'' ''/d2''] []])"

definition no_faults :: faults where
  "no_faults =
     \<lparr>fail_running = False, fail_select = False, fail_error = False, fail_begin = False,
      fail_update = False, fail_insert = (\<lambda>k. False), fail_commit = False\<rparr>"

definition ex_row :: "int \<Rightarrow> string \<Rightarrow> string \<Rightarrow> analysis_row" where
  "ex_row i u st =
     \<lparr>row_id = i, row_url = u, html_version = None, title = None,
      h1_count = 0, h2_count = 0, h3_count = 0, h4_count = 0, h5_count = 0, h6_count = 0,
      internal_links = 0, external_links = 0, inaccessible_links = 0,
      has_login_form = None, status = st\<rparr>"

definition ex_db :: db where
  "ex_db = \<lparr>analyses = [ex_row 1 ''h'' ''queued''], broken_links = []\<rparr>"

text \<open>
  Job 1 stopped while queued; and job 1 run to completion, requested again and run a
  second time, on the page that changes.
\<close>

definition ex_stopped :: db where
  "ex_stopped = snd (stopAnalysisHandler (Some 1) False ex_db)"

definition ex_run1 :: "db \<times> world" where
  "ex_run1 = processAnalysis (ex_env ex_parse2 ex_net2) no_faults 1 ''h'' (ex_db, [])"

definition ex_rerun :: db where
  "ex_rerun = snd (rerunHandler (Some 1) False (fst ex_run1))"

definition ex_run2 :: "db \<times> world" where
  "ex_run2 =
     processAnalysis (ex_env ex_parse2 ex_net2) no_faults 1 ''h'' (ex_rerun, snd ex_run1)"

section \<open>The walk is a fold over the nodes in pre-order\<close>

lemma analyzeURL_f_fold:
  "analyzeURL_f n an = fold analyzeURL_f_switch (subnodes n) an"
  "analyzeURL_f_children cs an = fold analyzeURL_f_switch (concat (map subnodes cs)) an"
  by (induction n an and cs an rule: analyzeURL_f_analyzeURL_f_children.induct) simp_all

lemma count_links_eq:
  "count_links ats an =
     an\<lparr>ExternalLinks := ExternalLinks an
          + length (filter (\<lambda>v. HasPrefix v ''http'')
                      (map Val (filter (\<lambda>attr. Key attr = ''href'') ats))),
        InternalLinks := InternalLinks an
          + length (filter (\<lambda>v. \<not> HasPrefix v ''http'')
                      (map Val (filter (\<lambda>attr. Key attr = ''href'') ats)))\<rparr>"
  by (induction ats arbitrary: an) auto

lemma checkForPassword_eq:
  "checkForPassword n an =
     (if list_ex is_password_input (subnodes n) then an\<lparr>HasLoginForm := True\<rparr> else an)"
  "checkForPassword_children cs an =
     (if list_ex is_password_input (concat (map subnodes cs))
      then an\<lparr>HasLoginForm := True\<rparr> else an)"
  by (induction n an and cs an rule: checkForPassword_checkForPassword_children.induct)
     (simp_all add: is_password_input_def)

lemma form_action_eq:
  "form_action ats an =
     (if list_ex (\<lambda>attr. Key attr = ''action''
                    \<and> (Contains (Val attr) ''login'' \<or> Contains (Val attr) ''signin'')) ats
      then an\<lparr>HasLoginForm := True\<rparr> else an)"
  by (induction ats) auto

lemmas switch_parts = analyzeURL_f_switch_def count_links_eq form_action_eq checkForPassword_eq

lemma switch_ExternalLinks:
  "ExternalLinks (analyzeURL_f_switch n an) =
     ExternalLinks an
       + (if is_anchor n then length (filter (\<lambda>v. HasPrefix v ''http'') (href_values n))
          else 0)"
  by (simp add: switch_parts is_anchor_def href_values_def Let_def split: list.split)

lemma switch_InternalLinks:
  "InternalLinks (analyzeURL_f_switch n an) =
     InternalLinks an
       + (if is_anchor n then length (filter (\<lambda>v. \<not> HasPrefix v ''http'') (href_values n))
          else 0)"
  by (simp add: switch_parts is_anchor_def href_values_def Let_def split: list.split)

lemma switch_HasLoginForm:
  "HasLoginForm (analyzeURL_f_switch n an) =
     (HasLoginForm an
      \<or> (is_form n \<and> (action_matches n \<or> list_ex is_password_input (subnodes n))))"
  by (auto simp add: switch_parts is_form_def action_matches_def Let_def split: list.split)

lemma switch_Title:
  "Title (analyzeURL_f_switch n an) =
     (if Type n = ElementNode \<and> Data n = ''title'' \<and> Children n \<noteq> []
      then Data (hd (Children n)) else Title an)"
  by (auto simp add: switch_parts Let_def split: list.split)

lemma switch_URL: "URL (analyzeURL_f_switch n an) = URL an"
  by (simp add: switch_parts Let_def split: list.split)

lemma fold_switch_ExternalLinks:
  "ExternalLinks (fold analyzeURL_f_switch ns an) =
     ExternalLinks an
       + length (filter (\<lambda>v. HasPrefix v ''http'')
                   (concat (map href_values (filter is_anchor ns))))"
  by (induction ns arbitrary: an) (simp_all add: switch_ExternalLinks)

lemma fold_switch_InternalLinks:
  "InternalLinks (fold analyzeURL_f_switch ns an) =
     InternalLinks an
       + length (filter (\<lambda>v. \<not> HasPrefix v ''http'')
                   (concat (map href_values (filter is_anchor ns))))"
  by (induction ns arbitrary: an) (simp_all add: switch_InternalLinks)

lemma fold_switch_HasLoginForm:
  "HasLoginForm (fold analyzeURL_f_switch ns an) =
     (HasLoginForm an
      \<or> list_ex (\<lambda>m. action_matches m \<or> list_ex is_password_input (subnodes m))
           (filter is_form ns))"
  by (induction ns arbitrary: an) (auto simp add: switch_HasLoginForm)

lemma fold_switch_Title:
  "Title (fold analyzeURL_f_switch ns an) =
     (let ts = concat (map (\<lambda>m. case Children m of [] \<Rightarrow> [] | c # _ \<Rightarrow> [Data c])
                       (filter (\<lambda>m. Type m = ElementNode \<and> Data m = ''title'') ns))
      in if ts = [] then Title an else last ts)"
  by (induction ns arbitrary: an) (auto simp add: switch_Title Let_def split: list.splits)

lemma fold_switch_URL: "URL (fold analyzeURL_f_switch ns an) = URL an"
  by (induction ns arbitrary: an) (simp_all add: switch_URL)

lemma walk_Title:
  "Title (analyzeURL_f doc an) =
     (if title_texts doc = [] then Title an else last (title_texts doc))"
  by (simp only: analyzeURL_f_fold fold_switch_Title title_texts_def Let_def)

lemma length_filter_both:
  "length (filter P xs) + length (filter (\<lambda>x. \<not> P x) xs) = length xs"
  by (induction xs) auto

lemma walk_links_total:
  "InternalLinks (analyzeURL_f doc an) + ExternalLinks (analyzeURL_f doc an)
     = InternalLinks an + ExternalLinks an + length (anchor_hrefs doc)"
  using length_filter_both [of "\<lambda>v. HasPrefix v ''http''" "anchor_hrefs doc"]
  by (simp add: analyzeURL_f_fold fold_switch_ExternalLinks fold_switch_InternalLinks
      anchor_hrefs_def)

lemma length_concat_at_most_one:
  "list_all (\<lambda>m. length (g m) \<le> 1) ns \<Longrightarrow>
     length (concat (map g ns)) = length (filter (\<lambda>m. g m \<noteq> []) ns)"
proof (induction ns)
  case Nil
  then show ?case by simp
next
  case (Cons m ns)
  then have "length (g m) \<le> 1" by simp
  then have "g m = [] \<or> (\<exists>x. g m = [x])"
    by (cases "g m") auto
  with Cons show ?case by auto
qed

lemma one_href_per_anchor:
  assumes "list_all (\<lambda>m. length (href_values m) \<le> 1) (filter is_anchor (subnodes doc))"
  shows "length (anchor_hrefs doc) = length (anchors_with_href doc)"
  using length_concat_at_most_one [OF assms]
  by (simp add: anchor_hrefs_def anchors_with_href_def conj_commute)

section \<open>What analyzeURL returns\<close>

lemma analyzeURL_ok:
  assumes "transport env 30 w urlStr = Inr resp"
    and "html_Parse env (Body resp) = Inr doc"
  shows "analyzeURL env urlStr w =
     (Inr ((analyzeURL_f doc (new_Analysis urlStr))
            \<lparr>HTMLVersion := getHTMLVersion doc,
             BrokenLinks := fst (checkInaccessibleLinks env doc urlStr (w @ [urlStr])),
             InaccessibleLinks :=
               length (fst (checkInaccessibleLinks env doc urlStr (w @ [urlStr])))\<rparr>),
      snd (checkInaccessibleLinks env doc urlStr (w @ [urlStr])))"
proof -
  have u: "URL (analyzeURL_f doc (new_Analysis urlStr)) = urlStr"
    by (simp add: analyzeURL_f_fold fold_switch_URL new_Analysis_def)
  show ?thesis
    using assms by (simp add: analyzeURL_def client_Get_def Let_def split_def u)
qed

lemma analyzeURL_Inr:
  assumes "analyzeURL env urlStr w = (Inr a, w')"
    and "transport env 30 w urlStr = Inr resp"
    and "html_Parse env (Body resp) = Inr doc"
  shows "a = (analyzeURL_f doc (new_Analysis urlStr))
            \<lparr>HTMLVersion := getHTMLVersion doc,
             BrokenLinks := fst (checkInaccessibleLinks env doc urlStr (w @ [urlStr])),
             InaccessibleLinks :=
               length (fst (checkInaccessibleLinks env doc urlStr (w @ [urlStr])))\<rparr>"
  using assms(1) by (simp add: analyzeURL_ok [OF assms(2,3)])

section \<open>The examples, evaluated\<close>

lemma ex_env_simps:
  "transport (ex_env parse net) t = net"
  "html_Parse (ex_env parse net) body = Inr (parse body)"
  "url_String (ex_env parse net) u = u"
  "url_Parse (ex_env parse net) s =
     (if Contains s ''%zz'' then Inl (Error ''invalid URL escape'') else Inr s)"
  "ResolveReference (ex_env parse net) base l = (if HasPrefix l ''http'' then l else base @ l)"
  by (simp_all add: ex_env_def)

lemmas ex_doc_defs = document_def elem_def attr_def text_node_def

lemma ex_fetch:
  "transport (ex_env (\<lambda>body. d) ex_net) 30 [] ''h'' = Inr \<lparr>StatusCode = 200, Body = []\<rparr>"
  "html_Parse (ex_env (\<lambda>body. d) ex_net) (Body \<lparr>StatusCode = 200, Body = []\<rparr>) = Inr d"
  by (simp_all add: ex_env_simps ex_net_def)

lemma ex_two_hrefs_counts:
  "length (anchor_hrefs ex_two_hrefs) = 2"
  "length (anchors_with_href ex_two_hrefs) = 1"
  "anchor_hrefs ex_two_hrefs = [''/x'', ''http://y'']"
  by (simp_all add: ex_two_hrefs_def ex_doc_defs anchor_hrefs_def anchors_with_href_def
      is_anchor_def href_values_def)

lemma ex_links_counts:
  "length (anchor_hrefs ex_links) = 5"
  "length (anchors_with_href ex_links) = 5"
  "list_all (\<lambda>m. length (href_values m) \<le> 1) (filter is_anchor (subnodes ex_links))"
  by (simp_all add: ex_links_def ex_doc_defs anchor_hrefs_def anchors_with_href_def
      is_anchor_def href_values_def)

lemma ex_titles_texts: "title_texts ex_titles = [''A'', ''B'']"
  by (simp add: ex_titles_def ex_doc_defs title_texts_def)

lemma ex_password_facts:
  "list_ex is_password_input (subnodes ex_password)"
  "list_all (\<lambda>m. \<not> list_ex is_password_input (subnodes m))
     (filter is_form (subnodes ex_password))"
  "\<not> list_ex action_matches (filter is_form (subnodes ex_password))"
  by (simp_all add: ex_password_def ex_doc_defs is_form_def is_password_input_def
      action_matches_def HasPrefix_def)

section \<open>The doctype search\<close>

lemma getHTMLVersion_f_last:
  "getHTMLVersion_f n v = (if doctypes n = [] then v else last (doctypes n))"
  "getHTMLVersion_f_children cs v =
     (if concat (map doctypes cs) = [] then v else last (concat (map doctypes cs)))"
  by (induction n v and cs v rule: getHTMLVersion_f_getHTMLVersion_f_children.induct) auto

lemma getHTMLVersion_no_doctype: "doctypes doc = [] \<Longrightarrow> getHTMLVersion doc = ''HTML5''"
  by (simp add: getHTMLVersion_def getHTMLVersion_f_last ToLower_def)

lemma getHTMLVersion_one_doctype:
  "getHTMLVersion (document [Node DoctypeNode ''html 4.01'' [] []]) = ''HTML 4.01''"
  "getHTMLVersion (document [Node DoctypeNode ''XHTML 1.0 Strict'' [] []]) = ''XHTML 1.0''"
  "getHTMLVersion (document [Node DoctypeNode ''html'' [] []]) = ''HTML5''"
  "getHTMLVersion (document [Node DoctypeNode ''svg'' [] []]) = ''HTML5''"
  by code_simp+

text \<open>
  \<^verbatim>\<open>html.Parse\<close> appends a doctype node only before the root element, so the trees
  \<^verbatim>\<open>analyzeURL\<close> passes on hold at most one. On such a tree the doctype nodes the search
  visits are all the doctype nodes.
\<close>

lemma all_doctypes_Node:
  "all_doctypes (Node t d at cs) =
     (if t = DoctypeNode then [d] else []) @ concat (map all_doctypes cs)"
proof -
  have a: "all_doctypes = (\<lambda>n. map Data (filter (\<lambda>m. Type m = DoctypeNode) (subnodes n)))"
    by (rule ext) (simp add: all_doctypes_def)
  show ?thesis
    unfolding a by (simp add: map_concat filter_concat comp_def)
qed

lemma length_member_concat:
  "c \<in> set cs \<Longrightarrow> length (g c) \<le> length (concat (map g cs))"
  by (induction cs) auto

lemma doctypes_all_doctypes:
  "length (all_doctypes n) \<le> 1 \<Longrightarrow> doctypes n = all_doctypes n"
proof (induction n)
  case (Node t d at cs)
  show ?case
  proof (cases "t = DoctypeNode")
    case True
    with Node.prems show ?thesis
      by (simp add: all_doctypes_Node)
  next
    case False
    have "doctypes c = all_doctypes c" if "c \<in> set cs" for c
    proof -
      have "length (all_doctypes c) \<le> length (concat (map all_doctypes cs))"
        using that by (rule length_member_concat)
      with Node.prems False have "length (all_doctypes c) \<le> 1"
        by (simp add: all_doctypes_Node)
      with Node.IH that show ?thesis by simp
    qed
    then have "map doctypes cs = map all_doctypes cs" by simp
    then have "concat (map doctypes cs) = concat (map all_doctypes cs)"
      by (rule arg_cong)
    with False show ?thesis
      by (simp add: all_doctypes_Node)
  qed
qed

lemma getHTMLVersion_one_or_none:
  assumes "length (all_doctypes doc) \<le> 1"
  shows "getHTMLVersion doc =
           (case all_doctypes doc of [] \<Rightarrow> ''HTML5'' | v # vs \<Rightarrow> version_of_doctype v)"
proof (cases "all_doctypes doc")
  case Nil
  then have "doctypes doc = []"
    using doctypes_all_doctypes [OF assms] by simp
  then show ?thesis
    using Nil by (simp add: getHTMLVersion_no_doctype)
next
  case (Cons v vs)
  with assms have vs: "vs = []" by simp
  have "doctypes doc = [v]"
    using doctypes_all_doctypes [OF assms] Cons vs by simp
  then have "getHTMLVersion_f doc [] = v"
    by (simp add: getHTMLVersion_f_last)
  then show ?thesis
    using Cons by (simp add: getHTMLVersion_def version_of_doctype_def)
qed

text \<open>
  A tree with two doctype nodes is not one the parser returns. On it the \<^verbatim>\<open>return\<close> of
  the closure leaves one call only and the second doctype node overwrites \<^verbatim>\<open>version\<close>.
\<close>

lemma getHTMLVersion_two_doctypes:
  "all_doctypes ex_doctypes = [''html 4.01'', ''xhtml 1.0'']"
  "getHTMLVersion ex_doctypes = ''XHTML 1.0''"
  by (simp_all add: getHTMLVersion_def all_doctypes_def ex_doctypes_def document_def ToLower_def
      lower_byte_def HasPrefix_def)

lemma ex_one_doctype_all: "all_doctypes ex_one_doctype = [''html 4.01'']"
  by (simp add: ex_one_doctype_def all_doctypes_def ex_doc_defs)

lemma ex_links_no_doctype: "all_doctypes ex_links = []"
  by (simp add: ex_links_def all_doctypes_def ex_doc_defs)

lemma version_of_doctype_html401: "version_of_doctype ''html 4.01'' = ''HTML 4.01''"
  by (simp add: version_of_doctype_def ToLower_def lower_byte_def HasPrefix_def)

section \<open>The link check is a fold over the resolved links\<close>

lemma probe_step_pair:
  "probe_step env u (links, w) =
     (if is_broken (transport env 10 w u) then links @ [u] else links, w @ [u])"
  by (simp add: probe_step_def)

lemma attrs_fold:
  assumes "url_Parse env baseURL = Inr base"
  shows "checkInaccessibleLinks_attrs env baseURL ats st =
     fold (probe_step env)
       (resolved_hrefs env base (map Val (filter (\<lambda>attr. Key attr = ''href'') ats))) st"
proof (induction ats arbitrary: st)
  case Nil
  then show ?case by (simp add: resolved_hrefs_def)
next
  case (Cons attr rest)
  obtain links w where st: "st = (links, w)" by (cases st)
  show ?case
    using assms Cons
    by (auto simp add: st resolved_hrefs_def probe_step_def client_Get_def is_broken_def Let_def
        split: sum.splits)
qed

lemma attrs_bad_base:
  assumes "url_Parse env baseURL = Inl e"
  shows "checkInaccessibleLinks_attrs env baseURL ats st = st"
proof (induction ats)
  case Nil
  then show ?case by simp
next
  case (Cons attr rest)
  obtain links w where st: "st = (links, w)" by (cases st)
  show ?case
    using assms Cons by (simp add: st split: sum.splits)
qed

lemma resolved_hrefs_append [simp]:
  "resolved_hrefs env base (xs @ ys) = resolved_hrefs env base xs @ resolved_hrefs env base ys"
  by (simp add: resolved_hrefs_def)

lemma resolved_hrefs_Nil [simp]: "resolved_hrefs env base [] = []"
  by (simp add: resolved_hrefs_def)

lemma checkInaccessibleLinks_f_subnodes:
  "checkInaccessibleLinks_f env baseURL n st =
     fold (\<lambda>m s. if is_anchor m then checkInaccessibleLinks_attrs env baseURL (Attr m) s else s)
       (subnodes n) st"
  "checkInaccessibleLinks_f_children env baseURL cs st =
     fold (\<lambda>m s. if is_anchor m then checkInaccessibleLinks_attrs env baseURL (Attr m) s else s)
       (concat (map subnodes cs)) st"
  by (induction env baseURL n st and env baseURL cs st
      rule: checkInaccessibleLinks_f_checkInaccessibleLinks_f_children.induct)
     (simp_all add: is_anchor_def)

lemma nodes_fold:
  assumes "url_Parse env baseURL = Inr base"
  shows "fold (\<lambda>m s. if is_anchor m then checkInaccessibleLinks_attrs env baseURL (Attr m) s
                     else s) ns st =
     fold (probe_step env)
       (resolved_hrefs env base (concat (map href_values (filter is_anchor ns)))) st"
  by (induction ns arbitrary: st) (simp_all add: attrs_fold [OF assms] href_values_def)

lemma checkInaccessibleLinks_fold:
  assumes "url_Parse env baseURL = Inr base"
  shows "checkInaccessibleLinks env doc baseURL w =
     fold (probe_step env) (resolved_hrefs env base (anchor_hrefs doc)) ([], w)"
  by (simp add: checkInaccessibleLinks_def checkInaccessibleLinks_f_subnodes
      nodes_fold [OF assms] anchor_hrefs_def)

lemma checkInaccessibleLinks_bad_base:
  assumes "url_Parse env baseURL = Inl e"
  shows "checkInaccessibleLinks env doc baseURL w = ([], w)"
proof -
  have "fold (\<lambda>m s. if is_anchor m then checkInaccessibleLinks_attrs env baseURL (Attr m) s
                    else s) ns st = st" for ns st
    by (induction ns) (simp_all add: attrs_bad_base [OF assms])
  then show ?thesis
    by (simp add: checkInaccessibleLinks_def checkInaccessibleLinks_f_subnodes)
qed

lemma probe_fold_closed:
  "fold (probe_step env) us (links, w) =
     (links @ map (\<lambda>k. us ! k)
               (filter (\<lambda>k. is_broken (transport env 10 (w @ take k us) (us ! k)))
                  [0..<length us]),
      w @ us)"
proof (induction us rule: rev_induct)
  case Nil
  then show ?case by simp
next
  case (snoc u us)
  let ?P = "\<lambda>vs k. is_broken (transport env 10 (w @ take k vs) (vs ! k))"
  have f: "filter (?P (us @ [u])) [0..<length us] = filter (?P us) [0..<length us]"
    by (rule filter_cong) (simp_all add: nth_append)
  have m: "map (\<lambda>k. (us @ [u]) ! k) (filter (?P us) [0..<length us])
     = map (\<lambda>k. us ! k) (filter (?P us) [0..<length us])"
    by (rule map_cong) (auto simp add: nth_append)
  have "fold (probe_step env) (us @ [u]) (links, w)
      = probe_step env u (links @ map (\<lambda>k. us ! k) (filter (?P us) [0..<length us]), w @ us)"
    by (simp only: fold_append fold_simps comp_apply snoc)
  also have "\<dots> =
      (links @ map (\<lambda>k. (us @ [u]) ! k) (filter (?P (us @ [u])) [0..<length (us @ [u])]),
       w @ us @ [u])"
    unfolding probe_step_pair
    by (simp only: length_append_singleton upt_Suc_append [OF le0] filter_append map_append f m)
       simp
  finally show ?case .
qed

lemma checkInaccessibleLinks_closed:
  assumes "url_Parse env baseURL = Inr base"
    and "us = resolved_hrefs env base (anchor_hrefs doc)"
  shows "checkInaccessibleLinks env doc baseURL w =
     (map (\<lambda>k. us ! k)
        (filter (\<lambda>k. is_broken (transport env 10 (w @ take k us) (us ! k))) [0..<length us]),
      w @ us)"
  by (simp add: checkInaccessibleLinks_fold [OF assms(1)] probe_fold_closed assms(2))

lemma ex_links_resolved:
  "resolved_hrefs (ex_env parse ex_net) ''h'' (anchor_hrefs ex_links) =
     [''h/dead'', ''h/ok'', ''h/down'', ''h/dead'']"
  by (simp add: ex_links_def ex_doc_defs anchor_hrefs_def is_anchor_def href_values_def
      resolved_hrefs_def ex_env_simps HasPrefix_def)

lemma ex_base: "url_Parse (ex_env parse net) ''h'' = Inr ''h''"
  by (simp add: ex_env_simps HasPrefix_def)

section \<open>The statements on the store\<close>

lemma list_ex_map_id:
  "(\<And>r. row_id (g r) = row_id r) \<Longrightarrow>
     list_ex (\<lambda>r. row_id r = i) (map g rs) = list_ex (\<lambda>r. row_id r = i) rs"
  by (induction rs) simp_all

lemma job_exists_update_result [simp]: "job_exists i (update_result a j d) = job_exists i d"
  unfolding job_exists_def update_result_def by (simp add: list_ex_map_id)

lemma job_exists_update_status [simp]: "job_exists i (update_status s j d) = job_exists i d"
  unfolding job_exists_def update_status_def by (simp add: list_ex_map_id)

lemma job_exists_committed [simp]: "job_exists i (committed a j d) = job_exists i d"
  by (simp add: committed_def job_exists_def) (simp add: job_exists_def [symmetric])

lemma update_result_broken_links [simp]: "broken_links (update_result a i d) = broken_links d"
  by (simp add: update_result_def)

lemma tx_insert_links_eq:
  "tx_insert_links fl i k ls t =
     (if list_ex fl [k..<k + length ls] \<or> (ls \<noteq> [] \<and> \<not> job_exists i t) then None
      else Some (t\<lparr>broken_links :=
                     broken_links t @ map (\<lambda>l. \<lparr>analysis_id = i, link = l\<rparr>) ls\<rparr>))"
proof (induction ls arbitrary: k t)
  case Nil
  then show ?case by simp
next
  case (Cons l ls)
  have u: "[k..<k + length (l # ls)] = k # [Suc k..<Suc k + length ls]"
    by (simp add: upt_rec)
  have e: "job_exists i (t\<lparr>broken_links := bs\<rparr>) = job_exists i t" for bs
    by (simp add: job_exists_def)
  show ?case
    unfolding u
    by (simp add: Cons insert_broken_link_def job_exists_def [symmetric] e)
qed

lemma filter_id_map:
  assumes "\<And>r. row_id (g r) = row_id r"
  shows "filter (\<lambda>r. row_id r = i) (map (\<lambda>r. if row_id r = i then g r else r) rs)
      = map g (filter (\<lambda>r. row_id r = i) rs)"
  by (induction rs) (simp_all add: assms)

lemma filter_id_Nil:
  "(filter (\<lambda>r. row_id r = i) rs = []) = (\<not> list_ex (\<lambda>r. row_id r = i) rs)"
  by (induction rs) simp_all

lemma select_status_map:
  assumes "\<And>r. row_id (g r) = row_id r" and "\<And>r. status (g r) = s"
  shows "select_status i
           (d\<lparr>analyses := map (\<lambda>r. if row_id r = i then g r else r) (analyses d)\<rparr>)
      = (if job_exists i d then Some s else None)"
proof (cases "filter (\<lambda>r. row_id r = i) (analyses d)")
  case Nil
  then show ?thesis
    using filter_id_Nil [of i "analyses d"]
    by (simp add: select_status_def job_exists_def filter_id_map [OF assms(1)])
next
  case (Cons r rs)
  then show ?thesis
    using filter_id_Nil [of i "analyses d"]
    by (simp add: select_status_def job_exists_def filter_id_map [OF assms(1)] assms(2))
qed

lemma select_status_update_status:
  "select_status i (update_status s i d) = (if job_exists i d then Some s else None)"
  unfolding update_status_def by (rule select_status_map) simp_all

lemma select_status_committed:
  "select_status i (committed a i d) = (if job_exists i d then Some ''done'' else None)"
proof -
  have "select_status i (committed a i d) = select_status i (update_result a i d)"
    by (simp add: select_status_def committed_def)
  also have "\<dots> = (if job_exists i d then Some ''done'' else None)"
    unfolding update_result_def by (rule select_status_map) simp_all
  finally show ?thesis .
qed

lemma select_broken_links_committed:
  "select_broken_links i (committed a i d) = select_broken_links i d @ BrokenLinks a"
  by (simp add: select_broken_links_def committed_def comp_def)

lemma select_broken_links_update_status [simp]:
  "select_broken_links i (update_status s j d) = select_broken_links i d"
  by (simp add: select_broken_links_def update_status_def)

lemma inaccessible_committed:
  "map inaccessible_links (filter (\<lambda>r. row_id r = i) (analyses (committed a i d)))
     = map (\<lambda>r. InaccessibleLinks a) (filter (\<lambda>r. row_id r = i) (analyses d))"
  by (simp add: committed_def update_result_def filter_id_map comp_def)

lemma key_update_status:
  "map row_key (analyses (update_status s i d)) =
     map (\<lambda>(j, u, t). (j, u, if j = i then s else t)) (map row_key (analyses d))"
  by (simp add: update_status_def row_key_def comp_def)

lemma key_committed:
  "map row_key (analyses (committed a i d)) =
     map (\<lambda>(j, u, t). (j, u, if j = i then ''done'' else t)) (map row_key (analyses d))"
  by (simp add: committed_def update_result_def row_key_def comp_def)

lemma key_select_queued:
  "select_queued d =
     map (\<lambda>(j, u, t). (j, u))
       (filter (\<lambda>(j, u, t). t = ''queued'') (map row_key (analyses d)))"
  by (simp add: select_queued_def row_key_def filter_map comp_def)

lemma key_const:
  "map (\<lambda>r. c) (filter (\<lambda>r. row_id r = i) rs) =
     map (\<lambda>k. c) (filter (\<lambda>(j, u, t). j = i) (map row_key rs))"
  by (simp add: row_key_def filter_map comp_def)

section \<open>One execution of processAnalysis\<close>

lemma processAnalysis_rest_commit:
  assumes "analyzeURL env url w = (Inr a, w')"
    and "(if fail_select flt then []
          else (case select_status i d of None \<Rightarrow> [] | Some s \<Rightarrow> s)) \<noteq> ''stopped''"
  shows "processAnalysis_rest env flt i url (d, w) =
           (if commit_fails flt i a d then d else committed a i d, w')"
  using assms
  by (simp add: processAnalysis_rest_def Let_def tx_insert_links_eq commit_fails_def
      committed_def)

lemma processAnalysis_rest_stopped:
  assumes "select_status i d = Some ''stopped''" and "\<not> fail_select flt"
  shows "processAnalysis_rest env flt i url (d, w) = (d, w)"
  using assms by (simp add: processAnalysis_rest_def)

lemma processAnalysis_run:
  assumes "analyzeURL env url w = (Inr a, w')" and "\<not> fail_running flt"
  shows "processAnalysis env flt i url (d, w) =
     (if commit_fails flt i a (update_status ''running'' i d)
      then update_status ''running'' i d
      else committed a i (update_status ''running'' i d), w')"
proof -
  have "(if fail_select flt then []
         else (case select_status i (update_status ''running'' i d) of
                 None \<Rightarrow> [] | Some s \<Rightarrow> s))
        \<noteq> ''stopped''"
    by (simp add: select_status_update_status)
  from processAnalysis_rest_commit [OF assms(1) this] assms(2)
  show ?thesis
    by (simp add: processAnalysis_def processAnalysis_begin_def)
qed

text \<open>The poll starts an execution only for a row whose status is \<^verbatim>\<open>queued\<close>.\<close>

lemma poll_only_queued:
  "(i, u) \<in> set (startWorker_poll query_err d) \<Longrightarrow>
     list_ex (\<lambda>r. row_id r = i \<and> row_url r = u \<and> status r = ''queued'') (analyses d)"
  by (auto simp add: startWorker_poll_def select_queued_def list_ex_iff split: if_splits)

text \<open>
  A stop request that lands between the \<^verbatim>\<open>UPDATE\<close> to \<^verbatim>\<open>running\<close> and the
  \<^verbatim>\<open>SELECT\<close> is seen: the execution returns, the analyzer is not called (the world is
  unchanged) and the job stays \<^verbatim>\<open>stopped\<close>.
\<close>

lemma stop_after_running_aborts:
  assumes "processAnalysis_begin flt i d = (True, d1)"
    and "stopAnalysisHandler (Some i) False d1 = (code, d2)"
    and "job_exists i d" and "\<not> fail_select flt"
  shows "processAnalysis_rest env flt i url (d2, w) = (d2, w)"
    and "select_status i d2 = Some ''stopped''"
proof -
  have d1: "d1 = update_status ''running'' i d"
    using assms(1) by (simp add: processAnalysis_begin_def split: if_splits)
  have d2: "d2 = update_status ''stopped'' i d1"
    using assms(2) by (simp add: stopAnalysisHandler_def)
  show s: "select_status i d2 = Some ''stopped''"
    by (simp add: d2 d1 select_status_update_status assms(3))
  show "processAnalysis_rest env flt i url (d2, w) = (d2, w)"
    by (rule processAnalysis_rest_stopped [OF s assms(4)])
qed

lemma no_faults_simps:
  "\<not> fail_running no_faults" "\<not> fail_select no_faults" "\<not> fail_error no_faults"
  "\<not> fail_begin no_faults" "\<not> fail_update no_faults" "\<not> fail_insert no_faults k"
  "\<not> fail_commit no_faults"
  by (simp_all add: no_faults_def)

lemma no_faults_commit: "job_exists i d \<Longrightarrow> \<not> commit_fails no_faults i a d"
  by (simp add: commit_fails_def no_faults_simps list_ex_iff)

lemma ex_db_job: "job_exists 1 ex_db" "select_status 1 ex_db = Some ''queued''"
  by (simp_all add: job_exists_def ex_db_def ex_row_def select_status_def)

lemma ex_db_key: "map row_key (analyses ex_db) = [(1, ''h'', ''queued'')]"
  by (simp add: ex_db_def ex_row_def row_key_def)

lemma ex_stopped_facts:
  "select_status 1 ex_stopped = Some ''stopped''" "job_exists 1 ex_stopped"
  "startWorker_poll False ex_stopped = []"
proof -
  show "select_status 1 ex_stopped = Some ''stopped''"
    by (simp add: ex_stopped_def stopAnalysisHandler_def select_status_update_status ex_db_job)
  show "job_exists 1 ex_stopped"
    by (simp add: ex_stopped_def stopAnalysisHandler_def ex_db_job)
  show "startWorker_poll False ex_stopped = []"
    by (simp add: ex_stopped_def stopAnalysisHandler_def startWorker_poll_def
        key_select_queued key_update_status ex_db_key)
qed

lemma ex2_first:
  "analyzeURL (ex_env ex_parse2 ex_net2) ''h'' [] =
     (Inr ((analyzeURL_f (ex_parse2 ''1'') (new_Analysis ''h''))
            \<lparr>HTMLVersion := getHTMLVersion (ex_parse2 ''1''),
             BrokenLinks := [''h/d1''], InaccessibleLinks := 1\<rparr>), [''h'', ''h/d1''])"
proof -
  have t: "transport (ex_env ex_parse2 ex_net2) 30 [] ''h''
             = Inr \<lparr>StatusCode = 200, Body = ''1''\<rparr>"
    by (simp add: ex_env_simps ex_net2_def)
  have h: "html_Parse (ex_env ex_parse2 ex_net2) (Body \<lparr>StatusCode = 200, Body = ''1''\<rparr>)
             = Inr (ex_parse2 ''1'')"
    by (simp add: ex_env_simps)
  have r: "resolved_hrefs (ex_env ex_parse2 ex_net2) ''h'' (anchor_hrefs (ex_parse2 ''1''))
             = [''h/d1'']"
    by (simp add: ex_parse2_def ex_doc_defs anchor_hrefs_def is_anchor_def href_values_def
        resolved_hrefs_def ex_env_simps HasPrefix_def)
  have c: "checkInaccessibleLinks (ex_env ex_parse2 ex_net2) (ex_parse2 ''1'') ''h'' [''h'']
      = ([''h/d1''], [''h'', ''h/d1''])"
    by (simp add: checkInaccessibleLinks_closed [OF ex_base r [symmetric]] ex_env_simps
        ex_net2_def is_broken_def)
  show ?thesis
    by (simp add: analyzeURL_ok [OF t h] c)
qed

lemma ex2_second:
  "analyzeURL (ex_env ex_parse2 ex_net2) ''h'' [''h'', ''h/d1''] =
     (Inr ((analyzeURL_f (ex_parse2 ''2'') (new_Analysis ''h''))
            \<lparr>HTMLVersion := getHTMLVersion (ex_parse2 ''2''),
             BrokenLinks := [''h/d2''], InaccessibleLinks := 1\<rparr>),
      [''h'', ''h/d1'', ''h'', ''h/d2''])"
proof -
  have t: "transport (ex_env ex_parse2 ex_net2) 30 [''h'', ''h/d1''] ''h''
             = Inr \<lparr>StatusCode = 200, Body = ''2''\<rparr>"
    by (simp add: ex_env_simps ex_net2_def)
  have h: "html_Parse (ex_env ex_parse2 ex_net2) (Body \<lparr>StatusCode = 200, Body = ''2''\<rparr>)
             = Inr (ex_parse2 ''2'')"
    by (simp add: ex_env_simps)
  have r: "resolved_hrefs (ex_env ex_parse2 ex_net2) ''h'' (anchor_hrefs (ex_parse2 ''2''))
             = [''h/d2'']"
    by (simp add: ex_parse2_def ex_doc_defs anchor_hrefs_def is_anchor_def href_values_def
        resolved_hrefs_def ex_env_simps HasPrefix_def)
  have c: "checkInaccessibleLinks (ex_env ex_parse2 ex_net2) (ex_parse2 ''2'') ''h''
             [''h'', ''h/d1'', ''h'']
      = ([''h/d2''], [''h'', ''h/d1'', ''h'', ''h/d2''])"
    by (simp add: checkInaccessibleLinks_closed [OF ex_base r [symmetric]] ex_env_simps
        ex_net2_def is_broken_def)
  show ?thesis
    using analyzeURL_ok [OF t h] by (simp add: c)
qed

lemma ex_run1_eq:
  "ex_run1 =
     (committed ((analyzeURL_f (ex_parse2 ''1'') (new_Analysis ''h''))
                   \<lparr>HTMLVersion := getHTMLVersion (ex_parse2 ''1''),
                    BrokenLinks := [''h/d1''], InaccessibleLinks := 1\<rparr>)
        1 (update_status ''running'' 1 ex_db),
      [''h'', ''h/d1''])"
  by (simp add: ex_run1_def processAnalysis_run [OF ex2_first no_faults_simps(1)]
      no_faults_commit ex_db_job)

lemma ex_rerun_eq: "ex_rerun = update_status ''queued'' 1 (fst ex_run1)"
  by (simp add: ex_rerun_def rerunHandler_def)

lemma ex_run2_eq:
  "ex_run2 =
     (committed ((analyzeURL_f (ex_parse2 ''2'') (new_Analysis ''h''))
                   \<lparr>HTMLVersion := getHTMLVersion (ex_parse2 ''2''),
                    BrokenLinks := [''h/d2''], InaccessibleLinks := 1\<rparr>)
        1 (update_status ''running'' 1 ex_rerun),
      [''h'', ''h/d1'', ''h'', ''h/d2''])"
proof -
  have e1: "job_exists 1 (fst ex_run1)"
    by (simp add: ex_run1_eq ex_db_job)
  show ?thesis
    unfolding ex_run2_def
    by (simp add: ex_run1_eq [THEN arg_cong, of snd]
        processAnalysis_run [OF ex2_second no_faults_simps(1)] no_faults_commit ex_rerun_eq e1)
qed

section \<open>Link counts\<close>

text \<open>
  C1, as amended. When \<^verbatim>\<open>analyzeURL\<close> fetched the page and parsed it to \<open>doc\<close>, the sum
  \<^verbatim>\<open>internal_links + external_links\<close> of its result is the number of \<^verbatim>\<open>href\<close>
  attributes carried by the anchor elements of \<open>doc\<close>: the walk increments once per
  \<^verbatim>\<open>href\<close> attribute, so an anchor with several of them counts several times and an
  anchor with none counts for nothing. When no anchor carries more than one \<^verbatim>\<open>href\<close>,
  the sum is the number of anchor elements that carry one.
\<close>

theorem links_sum_counts_href_attributes:
  assumes "analyzeURL env urlStr w = (Inr a, w')"
    and "transport env 30 w urlStr = Inr resp"
    and "html_Parse env (Body resp) = Inr doc"
  shows "InternalLinks a + ExternalLinks a = length (anchor_hrefs doc)
    \<and> (if list_all (\<lambda>m. length (href_values m) \<le> 1) (filter is_anchor (subnodes doc))
       then InternalLinks a + ExternalLinks a = length (anchors_with_href doc) else True)"
proof -
  have "InternalLinks a + ExternalLinks a = length (anchor_hrefs doc)"
    using walk_links_total [of doc "new_Analysis urlStr"]
    by (simp add: analyzeURL_Inr [OF assms] new_Analysis_def)
  then show ?thesis
    using one_href_per_anchor by simp
qed

text \<open>
  On the page \<open>ex_links\<close> (six anchors, five of them with one \<^verbatim>\<open>href\<close> each) the
  sum is 5.
\<close>

theorem links_sum_counts_href_attributes_witness:
  "map_sum id (\<lambda>a. InternalLinks a + ExternalLinks a)
      (fst (analyzeURL (ex_env (\<lambda>body. ex_links) ex_net) ''h'' [])) = Inr 5
   \<and> length (anchor_hrefs ex_links) = 5 \<and> length (anchors_with_href ex_links) = 5"
proof -
  note run = analyzeURL_ok [OF ex_fetch, of ex_links]
  from links_sum_counts_href_attributes [OF run ex_fetch] show ?thesis
    by (simp add: run ex_links_counts)
qed

text \<open>
  C1 as it was stated fails on one anchor with two \<^verbatim>\<open>href\<close> attributes: the sum is 2,
  the number of anchor elements carrying an \<^verbatim>\<open>href\<close> is 1.
\<close>

theorem links_sum_not_anchor_count:
  "map_sum id (\<lambda>a. InternalLinks a + ExternalLinks a)
      (fst (analyzeURL (ex_env (\<lambda>body. ex_two_hrefs) ex_net) ''h'' [])) = Inr 2
   \<and> length (anchors_with_href ex_two_hrefs) = 1"
proof -
  note run = analyzeURL_ok [OF ex_fetch, of ex_two_hrefs]
  show ?thesis
    using walk_links_total [of ex_two_hrefs "new_Analysis ''h''"]
    by (simp add: run ex_two_hrefs_counts new_Analysis_def)
qed

section \<open>The broken-link count\<close>

text \<open>
  C2. In every result that \<^verbatim>\<open>analyzeURL\<close> returns, the length of \<^verbatim>\<open>broken_links\<close> is
  \<^verbatim>\<open>inaccessible_links\<close>.
\<close>

theorem broken_links_length_is_inaccessible_links:
  "analyzeURL env urlStr w = (Inr a, w') \<Longrightarrow> length (BrokenLinks a) = InaccessibleLinks a"
  by (auto simp add: analyzeURL_def Let_def split_def split: prod.splits sum.splits)

theorem broken_links_length_is_inaccessible_links_witness:
  "map_sum id (\<lambda>a. length (BrokenLinks a) = InaccessibleLinks a)
     (fst (analyzeURL (ex_env (\<lambda>body. ex_links) ex_net) ''h'' [])) = Inr True"
proof -
  note run = analyzeURL_ok [OF ex_fetch, of ex_links]
  from broken_links_length_is_inaccessible_links [OF run] show ?thesis
    by (simp add: run)
qed

section \<open>The link check\<close>

text \<open>
  C3. Let the base URL of the page parse to \<open>base\<close> (in \<^verbatim>\<open>analyzeURL\<close> it is the URL
  the page was just fetched from), and let \<open>us\<close> be the resolved URLs of the \<^verbatim>\<open>href\<close>
  values of the anchors that parse, in document order, one per occurrence. Then
  \<^verbatim>\<open>checkInaccessibleLinks\<close> issues exactly the requests \<open>us\<close>, in that order and
  nothing else (a value that does not parse causes no request and no entry), and
  returns, in the same order, the occurrences whose request failed or was answered with
  a status in 400..599; the \<open>k\<close>-th request is made in the world left by the \<open>k\<close>
  requests before it.
\<close>

theorem checkInaccessibleLinks_probes_each_href:
  assumes "url_Parse env baseURL = Inr base"
    and "us = resolved_hrefs env base (anchor_hrefs doc)"
  shows "checkInaccessibleLinks env doc baseURL w =
     (map (\<lambda>k. us ! k)
        (filter (\<lambda>k. is_broken (transport env 10 (w @ take k us) (us ! k))) [0..<length us]),
      w @ us)"
  by (rule checkInaccessibleLinks_closed [OF assms])

text \<open>
  On \<open>ex_links\<close>: \<^verbatim>\<open>%zz\<close> is skipped, \<^verbatim>\<open>/dead\<close> is requested and recorded twice,
  \<^verbatim>\<open>/down\<close> (no answer) is recorded, \<^verbatim>\<open>/ok\<close> is requested and not recorded.
\<close>

theorem checkInaccessibleLinks_probes_each_href_witness:
  "checkInaccessibleLinks (ex_env (\<lambda>body. ex_links) ex_net) ex_links ''h'' [''h'']
     = ([''h/dead'', ''h/down'', ''h/dead''],
        [''h'', ''h/dead'', ''h/ok'', ''h/down'', ''h/dead''])"
proof -
  have u: "[0..<4] = [0, 1, 2, 3]" by (simp add: upt_rec)
  from checkInaccessibleLinks_probes_each_href [OF ex_base ex_links_resolved [symmetric]]
  show ?thesis
    by (simp add: u ex_env_simps ex_net_def is_broken_def)
qed

section \<open>Stopping a job\<close>

text \<open>
  C4. The poll selects only \<^verbatim>\<open>queued\<close> rows, and a stop that lands after the
  \<^verbatim>\<open>UPDATE\<close> to \<^verbatim>\<open>running\<close> is honoured (the two lemmas above). A stop between the
  dispatch and that \<^verbatim>\<open>UPDATE\<close> is lost: job 1 is polled while \<^verbatim>\<open>queued\<close>, stopped,
  and then executed; the execution overwrites \<^verbatim>\<open>stopped\<close> with \<^verbatim>\<open>running\<close>, calls the
  analyzer (the page is fetched) and leaves the job \<^verbatim>\<open>done\<close>.
\<close>

theorem stop_before_running_is_overwritten:
  "startWorker_poll False ex_db = [(1, ''h'')]
   \<and> select_status 1 ex_stopped = Some ''stopped''
   \<and> select_status 1
        (fst (processAnalysis (ex_env (\<lambda>body. ex_links) ex_net) no_faults 1 ''h''
                (ex_stopped, [])))
        = Some ''done''
   \<and> take 1 (snd (processAnalysis (ex_env (\<lambda>body. ex_links) ex_net) no_faults 1 ''h''
                     (ex_stopped, [])))
        = [''h'']"
proof -
  note run = analyzeURL_ok [OF ex_fetch, of ex_links]
  have n: "\<not> commit_fails no_faults 1 a (update_status ''running'' 1 ex_stopped)" for a
    by (rule no_faults_commit) (simp add: ex_stopped_facts)
  have poll: "startWorker_poll False ex_db = [(1, ''h'')]"
    by (simp add: startWorker_poll_def key_select_queued ex_db_key)
  show ?thesis
    by (simp add: poll ex_stopped_facts processAnalysis_run [OF run no_faults_simps(1)] n
        select_status_committed checkInaccessibleLinks_closed [OF ex_base refl])
qed

section \<open>The commit\<close>

text \<open>
  C5. Let the analysis of an execution succeed with result \<open>a\<close>, the first \<^verbatim>\<open>UPDATE\<close>
  have gone through, and \<open>d1\<close> be the store after it (the job \<^verbatim>\<open>running\<close>). The store
  the execution leaves is then one of two: when no statement of the commit fails, \<open>d1\<close>
  with every result column of the job written, its status \<^verbatim>\<open>done\<close> and one row per
  broken link added; when any of them fails, \<open>d1\<close> itself, the job still \<^verbatim>\<open>running\<close>.
\<close>

theorem commit_is_all_or_nothing:
  assumes "analyzeURL env url w = (Inr a, w')" and "\<not> fail_running flt"
    and "d1 = update_status ''running'' i d"
  shows "fst (processAnalysis env flt i url (d, w)) =
           (if commit_fails flt i a d1 then d1 else committed a i d1)
     \<and> select_status i d1 = (if job_exists i d then Some ''running'' else None)
     \<and> select_status i (committed a i d1) = (if job_exists i d then Some ''done'' else None)
     \<and> select_broken_links i (committed a i d1) = select_broken_links i d @ BrokenLinks a"
  by (simp add: processAnalysis_run [OF assms(1,2)] assms(3) select_status_update_status
      select_status_committed select_broken_links_committed)

text \<open>
  Job 1 on \<open>ex_links\<close>: with a failing \<^verbatim>\<open>Commit\<close> the store is the one after the first
  \<^verbatim>\<open>UPDATE\<close> and the job is \<^verbatim>\<open>running\<close>; with no failure the job is \<^verbatim>\<open>done\<close>.
\<close>

theorem commit_is_all_or_nothing_witness:
  "fst (processAnalysis (ex_env (\<lambda>body. ex_links) ex_net) (no_faults\<lparr>fail_commit := True\<rparr>)
          1 ''h'' (ex_db, []))
     = update_status ''running'' 1 ex_db
   \<and> select_status 1 (update_status ''running'' 1 ex_db) = Some ''running''
   \<and> select_status 1
        (fst (processAnalysis (ex_env (\<lambda>body. ex_links) ex_net) no_faults 1 ''h'' (ex_db, [])))
       = Some ''done''"
proof -
  note run = analyzeURL_ok [OF ex_fetch, of ex_links]
  have f: "\<not> fail_running (no_faults\<lparr>fail_commit := True\<rparr>)"
    by (simp add: no_faults_def)
  have c: "commit_fails (no_faults\<lparr>fail_commit := True\<rparr>) i a d" for i a d
    by (simp add: commit_fails_def)
  have n: "\<not> commit_fails no_faults 1 a (update_status ''running'' 1 ex_db)" for a
    by (rule no_faults_commit) (simp add: ex_db_job)
  from commit_is_all_or_nothing [OF run f refl, of 1 ex_db]
    commit_is_all_or_nothing [OF run no_faults_simps(1) refl, of 1 ex_db]
  show ?thesis
    by (simp add: c n ex_db_job)
qed

section \<open>Running a job again\<close>

text \<open>
  C6. The broken links of a second run are added to those of the first. Job 1 is run on
  a page with the dead link \<^verbatim>\<open>/d1\<close>, requested again (which makes it \<^verbatim>\<open>queued\<close>, so the
  poll picks it up) and run on the changed page, whose dead link is \<^verbatim>\<open>/d2\<close>. After the
  second commit the job is \<^verbatim>\<open>done\<close>, its column \<^verbatim>\<open>inaccessible_links\<close> is 1, and the
  query of \<^verbatim>\<open>getAnalysesHandler\<close> returns both links.
\<close>

theorem rerun_keeps_old_broken_links:
  "select_status 1 (fst ex_run1) = Some ''done''
   \<and> select_broken_links 1 (fst ex_run1) = [''h/d1'']
   \<and> startWorker_poll False ex_rerun = [(1, ''h'')]
   \<and> select_status 1 (fst ex_run2) = Some ''done''
   \<and> select_broken_links 1 (fst ex_run2) = [''h/d1'', ''h/d2'']
   \<and> map inaccessible_links (filter (\<lambda>r. row_id r = 1) (analyses (fst ex_run2))) = [1]"
proof -
  have s1: "select_status 1 (fst ex_run1) = Some ''done''"
    by (simp add: ex_run1_eq select_status_committed ex_db_job)
  have b1: "select_broken_links 1 (fst ex_run1) = [''h/d1'']"
    by (simp add: ex_run1_eq select_broken_links_committed)
       (simp add: select_broken_links_def ex_db_def)
  have e1: "job_exists 1 (fst ex_run1)"
    by (simp add: ex_run1_eq ex_db_job)
  have poll: "startWorker_poll False ex_rerun = [(1, ''h'')]"
    by (simp add: ex_rerun_eq ex_run1_eq startWorker_poll_def key_select_queued
        key_update_status key_committed ex_db_key)
  have s2: "select_status 1 (fst ex_run2) = Some ''done''"
    by (simp add: ex_run2_eq select_status_committed ex_rerun_eq e1)
  have b2: "select_broken_links 1 (fst ex_run2) = [''h/d1'', ''h/d2'']"
    by (simp add: ex_run2_eq select_broken_links_committed ex_rerun_eq b1)
  have i2: "map inaccessible_links (filter (\<lambda>r. row_id r = 1) (analyses (fst ex_run2))) = [1]"
    by (simp add: ex_run2_eq inaccessible_committed key_const ex_rerun_eq ex_run1_eq
        key_update_status key_committed ex_db_key)
  show ?thesis
    using s1 b1 poll s2 b2 i2 by simp
qed

section \<open>The HTML version\<close>

text \<open>
  C7. On a document with at most one doctype node, which is every document
  \<^verbatim>\<open>html.Parse\<close> hands to \<^verbatim>\<open>getHTMLVersion\<close>, the result is the class of the value of
  the first doctype node in pre-order: \<^verbatim>\<open>HTML5\<close> for \<^verbatim>\<open>html 5\<close> anywhere in it
  (letters in any case) or for the exact text \<^verbatim>\<open>html\<close>, else \<^verbatim>\<open>XHTML 1.1\<close>,
  \<^verbatim>\<open>XHTML 1.0\<close>, \<^verbatim>\<open>HTML 4.01\<close>, \<^verbatim>\<open>HTML 4.0\<close> for the first of \<^verbatim>\<open>xhtml 1.1\<close>,
  \<^verbatim>\<open>xhtml 1.0\<close>, \<^verbatim>\<open>html 4.01\<close>, \<^verbatim>\<open>html 4.0\<close> found in it, in this order. A document
  with no doctype node has the class \<^verbatim>\<open>HTML5\<close>.
\<close>

theorem getHTMLVersion_first_doctype:
  assumes "length (all_doctypes doc) \<le> 1"
  shows "getHTMLVersion doc =
           (case all_doctypes doc of [] \<Rightarrow> ''HTML5'' | v # vs \<Rightarrow> version_of_doctype v)"
  by (rule getHTMLVersion_one_or_none [OF assms])

text \<open>
  A document whose only doctype node has the value \<^verbatim>\<open>html 4.01\<close> is \<^verbatim>\<open>HTML 4.01\<close>;
  \<open>ex_links\<close>, with no doctype node, is \<^verbatim>\<open>HTML5\<close>.
\<close>

theorem getHTMLVersion_first_doctype_witness:
  "all_doctypes ex_one_doctype = [''html 4.01'']
   \<and> getHTMLVersion ex_one_doctype = ''HTML 4.01''
   \<and> all_doctypes ex_links = []
   \<and> getHTMLVersion ex_links = ''HTML5''"
  using getHTMLVersion_first_doctype [of ex_one_doctype]
    getHTMLVersion_first_doctype [of ex_links]
  by (simp add: ex_one_doctype_all ex_links_no_doctype version_of_doctype_html401)

section \<open>The page title\<close>

text \<open>
  C8, as amended. When \<^verbatim>\<open>analyzeURL\<close> fetched the page and parsed it to \<open>doc\<close>, the
  title of its result is the \<^verbatim>\<open>Data\<close> of the first child of the last \<^verbatim>\<open>title\<close>
  element, in document order, that has a child: every such element assigns the title and
  overwrites what an earlier one assigned. With no such element the title is empty.
\<close>

theorem title_is_last_title_text:
  assumes "analyzeURL env urlStr w = (Inr a, w')"
    and "transport env 30 w urlStr = Inr resp"
    and "html_Parse env (Body resp) = Inr doc"
  shows "Title a = (if title_texts doc = [] then [] else last (title_texts doc))"
  by (simp add: analyzeURL_Inr [OF assms] walk_Title new_Analysis_def)

theorem title_is_last_title_text_witness:
  "map_sum id Title (fst (analyzeURL (ex_env (\<lambda>body. ex_titles) ex_net) ''h'' []))
     = Inr (last [''A'', ''B''])"
proof -
  note run = analyzeURL_ok [OF ex_fetch, of ex_titles]
  from title_is_last_title_text [OF run ex_fetch] show ?thesis
    by (simp add: run ex_titles_texts)
qed

text \<open>
  C8 as it was stated fails on a page with the two titles A and B, in this order: the
  title of the result is B.
\<close>

theorem title_not_first_title_text:
  "map_sum id Title (fst (analyzeURL (ex_env (\<lambda>body. ex_titles) ex_net) ''h'' [])) = Inr ''B''
   \<and> title_texts ex_titles = [''A'', ''B'']"
proof -
  note run = analyzeURL_ok [OF ex_fetch, of ex_titles]
  show ?thesis
    by (simp add: run walk_Title ex_titles_texts)
qed

section \<open>Internal and external links\<close>

text \<open>
  C9. When \<^verbatim>\<open>analyzeURL\<close> fetched the page and parsed it to \<open>doc\<close>, its
  \<^verbatim>\<open>external_links\<close> is the number of \<^verbatim>\<open>href\<close> values on anchors that start with the
  bytes \<^verbatim>\<open>http\<close>, and its \<^verbatim>\<open>internal_links\<close> the number of those that do not; nothing
  else about the value is looked at. \<^verbatim>\<open>httphony://x\<close> starts with \<^verbatim>\<open>http\<close>,
  \<^verbatim>\<open>HTTP://x\<close> does not.
\<close>

theorem external_iff_http_prefix:
  assumes "analyzeURL env urlStr w = (Inr a, w')"
    and "transport env 30 w urlStr = Inr resp"
    and "html_Parse env (Body resp) = Inr doc"
  shows "ExternalLinks a = length (filter (\<lambda>v. HasPrefix v ''http'') (anchor_hrefs doc))
    \<and> InternalLinks a = length (filter (\<lambda>v. \<not> HasPrefix v ''http'') (anchor_hrefs doc))
    \<and> HasPrefix ''httphony://x'' ''http'' \<and> \<not> HasPrefix ''HTTP://x'' ''http''"
  by (simp add: analyzeURL_Inr [OF assms] analyzeURL_f_fold fold_switch_ExternalLinks
      fold_switch_InternalLinks anchor_hrefs_def new_Analysis_def HasPrefix_def)

theorem external_iff_http_prefix_witness:
  "map_sum id (\<lambda>a. (ExternalLinks a, InternalLinks a))
     (fst (analyzeURL (ex_env (\<lambda>body. ex_two_hrefs) ex_net) ''h'' [])) = Inr (1, 1)
   \<and> anchor_hrefs ex_two_hrefs = [''/x'', ''http://y'']"
proof -
  note run = analyzeURL_ok [OF ex_fetch, of ex_two_hrefs]
  from external_iff_http_prefix [OF run ex_fetch] show ?thesis
    by (simp add: run ex_two_hrefs_counts HasPrefix_def)
qed

section \<open>The login form\<close>

text \<open>
  C10. The login flag of a result is set exactly when some \<^verbatim>\<open>form\<close> element of the
  page has a matching \<^verbatim>\<open>action\<close> or a password input in its own subtree. So on a page
  where no \<^verbatim>\<open>form\<close> element has a password input below it, whatever password inputs
  stand elsewhere, the flag is set exactly when the \<^verbatim>\<open>action\<close> of some form matches.
\<close>

theorem password_outside_form_not_scanned:
  assumes "analyzeURL env urlStr w = (Inr a, w')"
    and "transport env 30 w urlStr = Inr resp"
    and "html_Parse env (Body resp) = Inr doc"
    and "list_all (\<lambda>m. \<not> list_ex is_password_input (subnodes m))
           (filter is_form (subnodes doc))"
  shows "HasLoginForm a =
           list_ex (\<lambda>m. action_matches m \<or> list_ex is_password_input (subnodes m))
             (filter is_form (subnodes doc))
    \<and> HasLoginForm a = list_ex action_matches (filter is_form (subnodes doc))"
proof -
  have "list_ex (\<lambda>m. action_matches m \<or> list_ex is_password_input (subnodes m))
          (filter is_form (subnodes doc))
      = list_ex action_matches (filter is_form (subnodes doc))"
    using assms(4) by (auto simp: list_ex_iff list_all_iff)
  then show ?thesis
    by (simp add: analyzeURL_Inr [OF assms(1-3)] analyzeURL_f_fold fold_switch_HasLoginForm
        new_Analysis_def)
qed

text \<open>
  The page \<open>ex_password\<close> has a password input outside its only form, whose
  \<^verbatim>\<open>action\<close> does not match: the flag is not set.
\<close>

theorem password_outside_form_not_scanned_witness:
  "map_sum id HasLoginForm
     (fst (analyzeURL (ex_env (\<lambda>body. ex_password) ex_net) ''h'' [])) = Inr False
   \<and> list_ex is_password_input (subnodes ex_password)"
proof -
  note run = analyzeURL_ok [OF ex_fetch, of ex_password]
  from password_outside_form_not_scanned [OF run ex_fetch ex_password_facts(2), THEN conjunct2]
  show ?thesis
    by (simp add: run ex_password_facts)
qed

end
